theory Spec2Isabelle
  imports Complex_Main
begin

section \<open>The storage-layout resolver of src/solidity/decodeInfo.js\<close>

text \<open>
  The module maps a type string of the Solidity AST, together with the table of state
  declarations, to a descriptor of the type's storage layout. This theory embeds the
  module function by function and proves the properties its specification states.
\<close>

subsection \<open>JavaScript numbers\<close>

text \<open>
  A JavaScript number is an IEEE double. The model keeps the values the module can
  produce: a finite value as an exact rational (\<open>Fin 0\<close> is the positive zero), the
  negative zero, the two infinities and not-a-number. The arithmetic below is the
  arithmetic of doubles as long as every integer involved stays below \<open>2^53\<close> in
  magnitude: the module only divides by powers of two (exact), or floors or ceils a
  quotient of two such integers at once (rounding a quotient of integers below \<open>2^53\<close>
  never reaches the next integer), or adds and multiplies integers and eighths.
  Beyond that range the model is an idealisation with unbounded precision.
\<close>

datatype jsnum = Fin rat | NegZero | PInf | NInf | NaN

fun isNeg :: "jsnum \<Rightarrow> bool" where
  "isNeg (Fin q) = (q < 0)"
| "isNeg NegZero = True"
| "isNeg NInf = True"
| "isNeg PInf = False"
| "isNeg NaN = False"

fun isZero :: "jsnum \<Rightarrow> bool" where
  "isZero (Fin q) = (q = 0)"
| "isZero NegZero = True"
| "isZero _ = False"

fun isInf :: "jsnum \<Rightarrow> bool" where
  "isInf PInf = True"
| "isInf NInf = True"
| "isInf _ = False"

fun ratOf :: "jsnum \<Rightarrow> rat" where
  "ratOf (Fin q) = q"
| "ratOf _ = 0"

definition zeroOf :: "bool \<Rightarrow> jsnum" where
  "zeroOf neg = (if neg then NegZero else Fin 0)"

definition infOf :: "bool \<Rightarrow> jsnum" where
  "infOf neg = (if neg then NInf else PInf)"

text \<open>The operator \<open>/\<close>.\<close>

definition jdiv :: "jsnum \<Rightarrow> jsnum \<Rightarrow> jsnum" where
  "jdiv a b =
     (if a = NaN \<or> b = NaN then NaN
      else if isInf a then (if isInf b then NaN else infOf (isNeg a \<noteq> isNeg b))
      else if isInf b then zeroOf (isNeg a \<noteq> isNeg b)
      else if isZero b then (if isZero a then NaN else infOf (isNeg a \<noteq> isNeg b))
      else if isZero a then zeroOf (isNeg a \<noteq> isNeg b)
      else Fin (ratOf a / ratOf b))"

text \<open>
  The operator \<open>*\<close>. The product of two finite numbers is exact here; it is the
  product of the source when it is an integer below \<open>2^53\<close>.
\<close>

definition jmul :: "jsnum \<Rightarrow> jsnum \<Rightarrow> jsnum" where
  "jmul a b =
     (if a = NaN \<or> b = NaN then NaN
      else if isInf a \<or> isInf b
        then (if isZero a \<or> isZero b then NaN else infOf (isNeg a \<noteq> isNeg b))
      else if isZero a \<or> isZero b then zeroOf (isNeg a \<noteq> isNeg b)
      else Fin (ratOf a * ratOf b))"

text \<open>The operator \<open>+\<close> on numbers (\<open>storageBytes += decoded.storageBytes\<close>).\<close>

definition jadd :: "jsnum \<Rightarrow> jsnum \<Rightarrow> jsnum" where
  "jadd a b =
     (if a = NaN \<or> b = NaN then NaN
      else if isInf a then (if isInf b \<and> a \<noteq> b then NaN else a)
      else if isInf b then b
      else if a = NegZero \<and> b = NegZero then NegZero
      else Fin (ratOf a + ratOf b))"

text \<open>\<open>Math.floor\<close> and \<open>Math.ceil\<close>; the ceiling of a value in \<open>(-1, 0)\<close> is the negative zero.\<close>

fun jfloor :: "jsnum \<Rightarrow> jsnum" where
  "jfloor (Fin q) = Fin (of_int \<lfloor>q\<rfloor>)"
| "jfloor x = x"

fun jceil :: "jsnum \<Rightarrow> jsnum" where
  "jceil (Fin q) = (if - 1 < q \<and> q < 0 then NegZero else Fin (of_int \<lceil>q\<rceil>))"
| "jceil x = x"

text \<open>The operator \<open><\<close> on numbers: false as soon as one side is not-a-number.\<close>

fun rank :: "jsnum \<Rightarrow> int" where
  "rank NInf = - 1"
| "rank PInf = 1"
| "rank _ = 0"

definition jlt :: "jsnum \<Rightarrow> jsnum \<Rightarrow> bool" where
  "jlt a b =
     (a \<noteq> NaN \<and> b \<noteq> NaN \<and> (rank a < rank b \<or> (rank a = rank b \<and> ratOf a < ratOf b)))"

subsection \<open>Strings\<close>

text \<open>
  A string is a list of characters; the model covers the strings whose code units are
  below 256 (an Isabelle \<open>char\<close>).
\<close>

definition isDigit :: "char \<Rightarrow> bool" where
  "isDigit c = (48 \<le> (of_char c :: nat) \<and> (of_char c :: nat) \<le> 57)"

text \<open>\<open>s.replace(/[0-9]+/g, r)\<close>: every maximal run of digits becomes \<open>r\<close>.\<close>

function replaceDigitRuns :: "string \<Rightarrow> string \<Rightarrow> string" where
  "replaceDigitRuns r [] = []"
| "replaceDigitRuns r (c # cs) =
     (if isDigit c then r @ replaceDigitRuns r (dropWhile isDigit cs)
      else c # replaceDigitRuns r cs)"
  by pat_completeness auto
termination
  by (relation "measure (\<lambda>(r, s). length s)")
     (auto simp: less_Suc_eq_le length_dropWhile_le)

text \<open>\<open>s.replace(pat, r)\<close> with a string pattern: the first occurrence only.\<close>

fun replaceFirst :: "string \<Rightarrow> string \<Rightarrow> string \<Rightarrow> string" where
  "replaceFirst pat r s =
     (if take (length pat) s = pat then r @ drop (length pat) s
      else (case s of [] \<Rightarrow> [] | c # cs \<Rightarrow> c # replaceFirst pat r cs))"

text \<open>
  \<open>parseInt(s)\<close> with no radix: leading white space is dropped, then an optional sign,
  then an optional \<open>0x\<close> or \<open>0X\<close> (which selects radix 16), then the longest run of
  digits of the radix; no digit at all gives not-a-number. The value of the digits is
  exact here; it is the value the source reads when it is below \<open>2^53\<close>.
\<close>

definition strWhiteSpace :: "char \<Rightarrow> bool" where
  "strWhiteSpace c = (of_char c \<in> {9, 10, 11, 12, 13, 32, 160 :: nat})"

definition digitVal :: "char \<Rightarrow> nat option" where
  "digitVal c =
     (let n = (of_char c :: nat) in
      if 48 \<le> n \<and> n \<le> 57 then Some (n - 48)
      else if 97 \<le> n \<and> n \<le> 122 then Some (n - 87)
      else if 65 \<le> n \<and> n \<le> 90 then Some (n - 55)
      else None)"

definition radixDigit :: "nat \<Rightarrow> char \<Rightarrow> bool" where
  "radixDigit R c = (case digitVal c of None \<Rightarrow> False | Some v \<Rightarrow> v < R)"

definition digitsValue :: "nat \<Rightarrow> string \<Rightarrow> nat" where
  "digitsValue R Z = foldl (\<lambda>acc c. acc * R + (case digitVal c of None \<Rightarrow> 0 | Some v \<Rightarrow> v)) 0 Z"

definition parseInt :: "string \<Rightarrow> jsnum" where
  "parseInt s =
     (let S = dropWhile strWhiteSpace s;
          neg = (take 1 S = ''-'');
          S = (if take 1 S = ''+'' \<or> take 1 S = ''-'' then drop 1 S else S);
          hex = (take 2 S = ''0x'' \<or> take 2 S = ''0X'');
          R = (if hex then 16 else 10);
          S = (if hex then drop 2 S else S);
          Z = takeWhile (radixDigit R) S
      in if Z = [] then NaN
         else if digitsValue R Z = 0 then zeroOf neg
         else Fin ((if neg then - 1 else 1) * of_nat (digitsValue R Z)))"

subsection \<open>Regular expressions of the module\<close>

text \<open>
  Both patterns end in \<open>( storage ref| storage pointer| memory| calldata)?$\<close>: at a
  position of the input this matches exactly when the rest of the input is one of the
  four qualifiers or is empty. A dot matches every character but a line terminator.
\<close>

definition qualifiers :: "string list" where
  "qualifiers = ['' storage ref'', '' storage pointer'', '' memory'', '' calldata'']"

definition tailOk :: "string \<Rightarrow> bool" where
  "tailOk r = (r = [] \<or> r \<in> set qualifiers)"

definition dot :: "char \<Rightarrow> bool" where
  "dot c = (c \<noteq> CHR 0x0A \<and> c \<noteq> CHR 0x0D)"

text \<open>
  \<open>(.*?)\]( storage ref| ...)?$\<close> from a position: the lazy group grows one character at
  a time until a \<open>]\<close> follows whose rest is accepted; \<open>acc\<close> is the group so far, reversed.
\<close>

fun lazyBracket :: "string \<Rightarrow> string \<Rightarrow> string option" where
  "lazyBracket acc [] = None"
| "lazyBracket acc (c # cs) =
     (if c = CHR '']'' \<and> tailOk cs then Some (rev acc)
      else if dot c then lazyBracket (c # acc) cs
      else None)"

text \<open>
  \<open>(.*)\[(.*?)\]( storage ref| ...)?$\<close> from a position: the greedy group first takes
  one more character and, only if the rest then fails, tries \<open>\[\<close> where it stands.
\<close>

fun arrayAt :: "string \<Rightarrow> string \<Rightarrow> (string \<times> string) option" where
  "arrayAt acc [] = None"
| "arrayAt acc (c # cs) =
     (case (if dot c then arrayAt (c # acc) cs else None) of
        Some m \<Rightarrow> Some m
      | None \<Rightarrow>
          (if c = CHR ''['' then
             (case lazyBracket [] cs of
                Some sz \<Rightarrow> Some (rev acc, sz)
              | None \<Rightarrow> None)
           else None))"

text \<open>
  \<open>type.match(...)\<close> tries the start positions from left to right; the result is the
  pair of \<open>match[1]\<close> and \<open>match[2]\<close>, or \<open>None\<close> for \<open>null\<close>.
\<close>

fun arrayMatch :: "string \<Rightarrow> (string \<times> string) option" where
  "arrayMatch [] = None"
| "arrayMatch (c # cs) =
     (case arrayAt [] (c # cs) of
        Some m \<Rightarrow> Some m
      | None \<Rightarrow> arrayMatch cs)"

text \<open>\<open>(.*?)( storage ref| ...)?$\<close> from a position.\<close>

fun lazyTail :: "string \<Rightarrow> string \<Rightarrow> string option" where
  "lazyTail acc [] = Some (rev acc)"
| "lazyTail acc (c # cs) =
     (if tailOk (c # cs) then Some (rev acc)
      else if dot c then lazyTail (c # acc) cs
      else None)"

text \<open>\<open>/struct (.*?)( storage ref| ...)?$/\<close>: the result is \<open>match[1]\<close>.\<close>

fun structMatch :: "string \<Rightarrow> string option" where
  "structMatch [] = None"
| "structMatch (c # cs) =
     (case (if take 7 (c # cs) = ''struct '' then lazyTail [] (drop 7 (c # cs)) else None) of
        Some m \<Rightarrow> Some m
      | None \<Rightarrow> structMatch cs)"

subsection \<open>Declarations and descriptors\<close>

text \<open>
  A node of the AST: \<open>nodeName\<close> is its field \<open>name\<close> (the kind of the node),
  \<open>attributes\<close> may be absent, and so may the fields \<open>name\<close> and \<open>type\<close> of the
  attributes; every node has its list of children, which may be empty. The table
  \<open>stateDefinitions\<close> is the list of its values in the order
  \<open>for (var k in stateDefinitions)\<close> visits them.
\<close>

record attrs =
  attrName :: "string option"
  attrType :: "string option"

datatype node = Node (nodeName: string) (attributes: "attrs option") (children: "node list")

datatype arraySize = Dynamic | Size jsnum

text \<open>
  Modelled from the spec: the classes of \<open>./types/\<close> that the builders instantiate are
  not part of the sources. Following the data model of the specification, a descriptor
  is a tagged variant with the common fields \<open>storageSlots\<close> and \<open>storageBytes\<close>, the
  element and size of an array, the members of a struct and the declaration of an enum;
  each constructor keeps the fields of the \<open>decodeInfo\<close> object it is built from, the
  tag standing for \<open>typeName\<close>.
\<close>

datatype typeDescr =
    AddressType (storageSlots: jsnum) (storageBytes: jsnum)
  | ArrayType (storageSlots: jsnum) (storageBytes: jsnum)
      (arraySize: arraySize) (underlyingType: typeDescr)
  | BoolType (storageSlots: jsnum) (storageBytes: jsnum)
  | BytesType (storageSlots: jsnum) (storageBytes: jsnum)
  | BytesXType (storageSlots: jsnum) (storageBytes: jsnum)
  | EnumType (storageSlots: jsnum) (storageBytes: jsnum) (enumDef: node)
  | StringType (storageSlots: jsnum) (storageBytes: jsnum)
  | StructType (storageSlots: jsnum) (storageBytes: jsnum) (members: "typeDescr list")
  | IntType (storageSlots: jsnum) (storageBytes: jsnum)
  | UintType (storageSlots: jsnum) (storageBytes: jsnum)

fun typeName :: "typeDescr \<Rightarrow> string" where
  "typeName (AddressType _ _) = ''address''"
| "typeName (ArrayType _ _ _ _) = ''array''"
| "typeName (BoolType _ _) = ''bool''"
| "typeName (BytesType _ _) = ''bytes''"
| "typeName (BytesXType _ _) = ''bytesX''"
| "typeName (EnumType _ _ _) = ''enum''"
| "typeName (StringType _ _) = ''string''"
| "typeName (StructType _ _ _) = ''struct''"
| "typeName (IntType _ _) = ''int''"
| "typeName (UintType _ _) = ''uint''"

text \<open>
  What a call does besides returning a descriptor: it returns \<open>null\<close> (after a line on
  the console, which is not modelled), or it throws a \<open>TypeError\<close>, or the recursion is
  deeper than the fuel given to the model (the source has no bound of its own), or the
  dispatch reaches a property that the table inherits from \<open>Object.prototype\<close>, whose
  result is not modelled.
\<close>

datatype failure = Null | TypeError | OutOfFuel | Inherited

type_synonym result = "failure + typeDescr"

type_synonym resolver = "string \<Rightarrow> node list \<Rightarrow> result"

subsection \<open>The builders of the scalar types\<close>

text \<open>
  In \<open>Uint\<close> and \<open>Int\<close> the first statement is a conditional expression whose value is
  dropped: \<open>type\<close> is the same afterwards.
\<close>

definition Uint :: "string \<Rightarrow> result" where
  "Uint type =
     (let dropped = (if type = ''uint'' then ''uint256'' else type) in
      Inr (UintType (Fin 1) (jdiv (parseInt (replaceFirst ''uint'' '''' type)) (Fin 8))))"

definition Int_builder :: "string \<Rightarrow> result" where
  "Int_builder type =
     (let dropped = (if type = ''int'' then ''int256'' else type) in
      Inr (IntType (Fin 1) (jdiv (parseInt (replaceFirst ''int'' '''' type)) (Fin 8))))"

definition Address :: "string \<Rightarrow> result" where
  "Address type = Inr (AddressType (Fin 1) (Fin 20))"

definition Bool :: "string \<Rightarrow> result" where
  "Bool type = Inr (BoolType (Fin 1) (Fin 1))"

definition DynamicByteArray :: "string \<Rightarrow> result" where
  "DynamicByteArray type = Inr (BytesType (Fin 1) (Fin 32))"

definition FixedByteArray :: "string \<Rightarrow> result" where
  "FixedByteArray type =
     Inr (BytesXType (Fin 1) (parseInt (replaceFirst ''bytes'' '''' type)))"

definition String_builder :: "string \<Rightarrow> result" where
  "String_builder type = Inr (StringType (Fin 1) (Fin 32))"

subsection \<open>The builders of the composite types\<close>

text \<open>
  The builders of arrays and structs call \<open>parseType\<close> again; here they take it as the
  argument \<open>parseType\<close>, and the entry point below passes itself.
\<close>

definition arraySlots :: "arraySize \<Rightarrow> typeDescr \<Rightarrow> jsnum" where
  "arraySlots size' underlying =
     (case size' of
        Dynamic \<Rightarrow> Fin 1
      | Size n \<Rightarrow>
          (if jlt (storageBytes underlying) (Fin 32) then
             (let itemPerSlot = jfloor (jdiv (Fin 32) (storageBytes underlying))
              in jceil (jdiv n itemPerSlot))
           else jmul n (storageSlots underlying)))"

definition Array :: "resolver \<Rightarrow> string \<Rightarrow> node list \<Rightarrow> result" where
  "Array parseType type stateDefinitions =
     (case arrayMatch type of
        None \<Rightarrow> Inl Null
      | Some (match1, match2) \<Rightarrow>
          (let size' = (if match2 = '''' then Dynamic else Size (parseInt match2)) in
           (case parseType match1 stateDefinitions of
              Inl e \<Rightarrow> Inl e
            | Inr underlying \<Rightarrow>
                Inr (ArrayType (arraySlots size' underlying) (Fin 32) size' underlying))))"

text \<open>The loop of \<open>Enum\<close>: \<open>while (length > 1) { length = length / 256; storageBytes++ }\<close>.\<close>

function enumLoop :: "rat \<Rightarrow> nat \<Rightarrow> nat" where
  "enumLoop len bytes =
     (if len > 1 then enumLoop (len / 256) (bytes + 1) else bytes)"
  by pat_completeness auto
termination
proof (relation "measure (\<lambda>(len, bytes). nat \<lfloor>len\<rfloor>)")
  show "wf (measure (\<lambda>(len, bytes). nat \<lfloor>len\<rfloor>))"
    by simp
next
  fix len :: rat and bytes :: nat
  assume big: "1 < len"
  have "len / 256 < of_int \<lfloor>len\<rfloor>"
  proof -
    have "len < of_int \<lfloor>len\<rfloor> + 1" by linarith
    moreover have "(1::rat) \<le> of_int \<lfloor>len\<rfloor>" using big by (simp add: le_floor_iff)
    ultimately show ?thesis by linarith
  qed
  then have "\<lfloor>len / 256\<rfloor> < \<lfloor>len\<rfloor>" by (simp add: floor_less_iff)
  moreover have "0 < \<lfloor>len\<rfloor>" using big by (simp add: less_floor_iff)
  ultimately show "((len / 256, bytes + 1), (len, bytes))
      \<in> measure (\<lambda>(len, bytes). nat \<lfloor>len\<rfloor>)"
    by simp
qed

declare enumLoop.simps [simp del]

text \<open>\<open>getEnum\<close>: the first declaration with attributes, a non-empty name and the right string.\<close>

fun getEnum :: "string \<Rightarrow> node list \<Rightarrow> node option" where
  "getEnum type [] = None"
| "getEnum type (dec # rest) =
     (case attributes dec of
        None \<Rightarrow> getEnum type rest
      | Some a \<Rightarrow>
          (case attrName a of
             None \<Rightarrow> getEnum type rest
           | Some n \<Rightarrow>
               (if n \<noteq> '''' \<and> type = ''enum '' @ n then Some dec
                else getEnum type rest)))"

definition Enum :: "string \<Rightarrow> node list \<Rightarrow> result" where
  "Enum type stateDefinitions =
     (case getEnum type stateDefinitions of
        None \<Rightarrow> Inl Null
      | Some dec \<Rightarrow>
          Inr (EnumType (Fin 1)
                 (Fin (of_nat (enumLoop (of_nat (length (children dec))) 0)))
                 dec))"

text \<open>
  The inner loop of \<open>getStructMembers\<close> over the children of the declaration found;
  the pair \<open>(mems, bytes)\<close> is \<open>members\<close> and \<open>storageBytes\<close>. A child without attributes or without a
  type makes the source read a property of \<open>undefined\<close>.
\<close>

fun memberLoop ::
  "resolver \<Rightarrow> node list \<Rightarrow> node list \<Rightarrow> typeDescr list \<times> jsnum
     \<Rightarrow> failure + (typeDescr list \<times> jsnum)" where
  "memberLoop parseType stateDefinitions [] acc = Inr acc"
| "memberLoop parseType stateDefinitions (member # rest) (mems, bytes) =
     (case attributes member of
        None \<Rightarrow> Inl TypeError
      | Some a \<Rightarrow>
          (case attrType a of
             None \<Rightarrow> Inl TypeError
           | Some t \<Rightarrow>
               (case parseType t stateDefinitions of
                  Inl e \<Rightarrow> Inl e
                | Inr decoded \<Rightarrow>
                    memberLoop parseType stateDefinitions rest
                      (mems @ [decoded], jadd bytes (storageBytes decoded)))))"

text \<open>
  The outer loop: the first declaration of kind \<open>StructDefinition\<close> with the name asked
  for is used and the loop stops there; when there is none, the empty list of members
  and 0 are returned.
\<close>

fun structLoop ::
  "resolver \<Rightarrow> string \<Rightarrow> node list \<Rightarrow> node list
     \<Rightarrow> failure + (typeDescr list \<times> jsnum)" where
  "structLoop parseType typeName' stateDefinitions [] = Inr ([], Fin 0)"
| "structLoop parseType typeName' stateDefinitions (dec # rest) =
     (if nodeName dec = ''StructDefinition'' then
        (case attributes dec of
           None \<Rightarrow> Inl TypeError
         | Some a \<Rightarrow>
             (if attrName a = Some typeName' then
                memberLoop parseType stateDefinitions (children dec) ([], Fin 0)
              else structLoop parseType typeName' stateDefinitions rest))
      else structLoop parseType typeName' stateDefinitions rest)"

definition getStructMembers ::
  "resolver \<Rightarrow> string \<Rightarrow> node list \<Rightarrow> failure + (typeDescr list \<times> jsnum)" where
  "getStructMembers parseType typeName' stateDefinitions =
     structLoop parseType typeName' stateDefinitions stateDefinitions"

definition Struct :: "resolver \<Rightarrow> string \<Rightarrow> node list \<Rightarrow> result" where
  "Struct parseType type stateDefinitions =
     (case structMatch type of
        None \<Rightarrow> Inl Null
      | Some match1 \<Rightarrow>
          (case getStructMembers parseType match1 stateDefinitions of
             Inl e \<Rightarrow> Inl e
           | Inr (mems, bytes) \<Rightarrow>
               Inr (StructType (jceil (jdiv bytes (Fin 32))) (Fin 32) mems)))"

subsection \<open>The classifier and the entry point\<close>

definition typeClass :: "string \<Rightarrow> string" where
  "typeClass fullType =
     (if CHR '']'' \<in> set fullType then ''array''
      else
        (let fullType = (if CHR '' '' \<in> set fullType
                         then takeWhile (\<lambda>c. c \<noteq> CHR '' '') fullType else fullType);
             char = (if take 5 fullType = ''bytes'' then ''X'' else '''')
         in replaceDigitRuns char fullType))"

text \<open>
  The names that every object literal inherits from \<open>Object.prototype\<close>: the lookup
  \<open>decodeInfos[currentType]\<close> finds them although the table does not list them.
\<close>

definition inheritedKeys :: "string list" where
  "inheritedKeys =
     [''constructor'', ''hasOwnProperty'', ''isPrototypeOf'', ''propertyIsEnumerable'',
      ''toLocaleString'', ''toString'', ''valueOf'', ''__proto__'', ''__defineGetter__'',
      ''__defineSetter__'', ''__lookupGetter__'', ''__lookupSetter__'']"

text \<open>
  The dispatch table \<open>decodeInfos\<close> of \<open>parseType\<close>, in the order of the source; the
  builders of the scalar types ignore the table of declarations.
\<close>

definition decodeInfos :: "resolver \<Rightarrow> (string \<times> resolver) list" where
  "decodeInfos parseType' =
     [(''address'', \<lambda>type stateDefinitions. Address type),
      (''array'', Array parseType'),
      (''bool'', \<lambda>type stateDefinitions. Bool type),
      (''bytes'', \<lambda>type stateDefinitions. DynamicByteArray type),
      (''bytesX'', \<lambda>type stateDefinitions. FixedByteArray type),
      (''enum'', Enum),
      (''string'', \<lambda>type stateDefinitions. String_builder type),
      (''struct'', Struct parseType'),
      (''int'', \<lambda>type stateDefinitions. Int_builder type),
      (''uint'', \<lambda>type stateDefinitions. Uint type)]"

text \<open>
  \<open>parseType\<close>. The classifier always returns a string, so the test
  \<open>currentType === null\<close> of the source never holds; a class outside the table gives
  \<open>undefined\<close>, and calling it throws.
\<close>

fun parseType :: "nat \<Rightarrow> string \<Rightarrow> node list \<Rightarrow> result" where
  "parseType 0 type stateDefinitions = Inl OutOfFuel"
| "parseType (Suc fuel) type stateDefinitions =
     (let currentType = typeClass type in
      case map_of (decodeInfos (parseType fuel)) currentType of
        Some builder \<Rightarrow> builder type stateDefinitions
      | None \<Rightarrow>
          (if currentType \<in> set inheritedKeys then Inl Inherited else Inl TypeError))"

subsection \<open>Notions used to state the properties\<close>

text \<open>A number that is finite and at least 1, and a number that is finite and positive.\<close>

fun atLeastOne :: "jsnum \<Rightarrow> bool" where
  "atLeastOne (Fin q) = (1 \<le> q)"
| "atLeastOne _ = False"

fun positive :: "jsnum \<Rightarrow> bool" where
  "positive (Fin q) = (0 < q)"
| "positive _ = False"

text \<open>A property holds of a descriptor and of every descriptor nested in it.\<close>

fun allDescr :: "(typeDescr \<Rightarrow> bool) \<Rightarrow> typeDescr \<Rightarrow> bool" where
  "allDescr P (ArrayType s b sz e) = (P (ArrayType s b sz e) \<and> allDescr P e)"
| "allDescr P (StructType s b ms) = (P (StructType s b ms) \<and> list_all (allDescr P) ms)"
| "allDescr P d = P d"

text \<open>
  A descriptor is regular when its \<open>storageBytes\<close> is positive, its size, if it is a
  fixed array, is at least 1, and its list of members, if it is a struct, is not empty.
\<close>

fun regular :: "typeDescr \<Rightarrow> bool" where
  "regular (ArrayType s b sz e) =
     (positive b \<and> (case sz of Dynamic \<Rightarrow> True | Size n \<Rightarrow> atLeastOne n))"
| "regular (StructType s b ms) = (positive b \<and> ms \<noteq> [])"
| "regular d = positive (storageBytes d)"

text \<open>
  The fields of a descriptor agree with each other as the builders compute them: a
  scalar and an enum take one slot, an array and a struct have 32 bytes and the slots
  their builder derives from the element, or from the members.
\<close>

fun consistent :: "typeDescr \<Rightarrow> bool" where
  "consistent (ArrayType s b sz e) = (b = Fin 32 \<and> s = arraySlots sz e \<and> consistent e)"
| "consistent (StructType s b ms) =
     (b = Fin 32
      \<and> s = jceil (jdiv (foldl jadd (Fin 0) (map storageBytes ms)) (Fin 32))
      \<and> list_all consistent ms)"
| "consistent d = (storageSlots d = Fin 1)"

text \<open>
  A declaration is the struct, or the enum, of a name as the two lookups test it; the
  lookup of a struct passes over a declaration of another kind or of another name.
\<close>

definition structDeclared :: "string \<Rightarrow> node \<Rightarrow> bool" where
  "structDeclared n dec =
     (nodeName dec = ''StructDefinition''
      \<and> (case attributes dec of None \<Rightarrow> False | Some a \<Rightarrow> attrName a = Some n))"

definition structSkipped :: "string \<Rightarrow> node \<Rightarrow> bool" where
  "structSkipped n dec =
     (nodeName dec \<noteq> ''StructDefinition''
      \<or> (case attributes dec of None \<Rightarrow> False | Some a \<Rightarrow> attrName a \<noteq> Some n))"

definition named :: "string \<Rightarrow> node \<Rightarrow> bool" where
  "named n dec = (case attributes dec of None \<Rightarrow> False | Some a \<Rightarrow> attrName a = Some n)"

text \<open>
  A member declaration resolves to a descriptor, or fails with a failure (a member
  without attributes or without a type string throws).
\<close>

definition resolvesTo :: "resolver \<Rightarrow> node list \<Rightarrow> node \<Rightarrow> typeDescr \<Rightarrow> bool" where
  "resolvesTo parseType' defs member d =
     (case attributes member of
        None \<Rightarrow> False
      | Some a \<Rightarrow>
          (case attrType a of None \<Rightarrow> False | Some t \<Rightarrow> parseType' t defs = Inr d))"

definition failsWith :: "resolver \<Rightarrow> node list \<Rightarrow> node \<Rightarrow> failure \<Rightarrow> bool" where
  "failsWith parseType' defs member e =
     (case attributes member of
        None \<Rightarrow> e = TypeError
      | Some a \<Rightarrow>
          (case attrType a of None \<Rightarrow> e = TypeError | Some t \<Rightarrow> parseType' t defs = Inl e))"

text \<open>
  A name without a space, a closing bracket or a line terminator, as the name of a
  declaration is.
\<close>

definition plainName :: "string \<Rightarrow> bool" where
  "plainName n = list_all (\<lambda>c. c \<noteq> CHR '' '' \<and> c \<noteq> CHR '']'' \<and> dot c) n"

text \<open>A fixed array or a struct: the descriptors whose slots depend on their parts.\<close>

fun sized :: "typeDescr \<Rightarrow> bool" where
  "sized (ArrayType s b (Size n) e) = True"
| "sized (StructType s b ms) = True"
| "sized d = False"

text \<open>
  A resolver agrees with another on a table when every result of the first, other than
  running out of fuel, is the result of the second.
\<close>

definition agrees :: "resolver \<Rightarrow> resolver \<Rightarrow> node list \<Rightarrow> bool" where
  "agrees rec rec' defs =
     (\<forall>t r. rec t defs = r \<longrightarrow> r \<noteq> Inl OutOfFuel \<longrightarrow> rec' t defs = r)"

text \<open>Declarations used in the examples: a member of a struct, and a struct.\<close>

abbreviation member :: "string \<Rightarrow> string \<Rightarrow> node" where
  "member n t \<equiv>
     Node ''VariableDeclaration'' (Some \<lparr>attrName = Some n, attrType = Some t\<rparr>) []"

abbreviation structDef :: "string \<Rightarrow> node list \<Rightarrow> node" where
  "structDef n ms \<equiv>
     Node ''StructDefinition'' (Some \<lparr>attrName = Some n, attrType = None\<rparr>) ms"

section \<open>Properties\<close>

subsection \<open>The dispatch of the entry point\<close>

lemma parseType_Suc:
  "parseType (Suc fuel) type stateDefinitions =
     (let currentType = typeClass type in
      if currentType = ''address'' then Address type
      else if currentType = ''array'' then Array (parseType fuel) type stateDefinitions
      else if currentType = ''bool'' then Bool type
      else if currentType = ''bytes'' then DynamicByteArray type
      else if currentType = ''bytesX'' then FixedByteArray type
      else if currentType = ''enum'' then Enum type stateDefinitions
      else if currentType = ''string'' then String_builder type
      else if currentType = ''struct'' then Struct (parseType fuel) type stateDefinitions
      else if currentType = ''int'' then Int_builder type
      else if currentType = ''uint'' then Uint type
      else if currentType \<in> set inheritedKeys then Inl Inherited
      else Inl TypeError)"
  by (simp add: decodeInfos_def Let_def)

lemmas parseType_eqs = parseType.simps(1) parseType_Suc

declare parseType.simps [simp del]

declare parseType_eqs [simp]

subsection \<open>Evaluating the classifier and the number parser\<close>

lemma typeClass_uint: "typeClass ''uint'' = ''uint''"
  by (simp add: typeClass_def isDigit_def)

lemma typeClass_int: "typeClass ''int'' = ''int''"
  by (simp add: typeClass_def isDigit_def)

lemma typeClass_uint256: "typeClass ''uint256'' = ''uint''"
  by (simp add: typeClass_def isDigit_def)

lemma typeClass_uint128: "typeClass ''uint128'' = ''uint''"
  by (simp add: typeClass_def isDigit_def)

lemma typeClass_bool: "typeClass ''bool'' = ''bool''"
  by (simp add: typeClass_def isDigit_def)

lemma typeClass_mapping:
  "typeClass ''mapping(address => uint256)'' = ''mapping(address''"
  by (simp add: typeClass_def isDigit_def)

lemma parseInt_empty: "parseInt '''' = NaN"
  by (simp add: parseInt_def)

lemmas parseInt_eval =
  parseInt_def Let_def strWhiteSpace_def radixDigit_def digitVal_def digitsValue_def zeroOf_def

lemma parseInt_256: "parseInt ''256'' = Fin 256"
  by (simp add: parseInt_eval)

lemma parseInt_128: "parseInt ''128'' = Fin 128"
  by (simp add: parseInt_eval)

lemma parseInt_3: "parseInt ''3'' = Fin 3"
  by (simp add: parseInt_eval)

lemma parseInt_0: "parseInt ''0'' = Fin 0"
  by (simp add: parseInt_eval)


lemma parseType_uint128:
  "parseType (Suc fuel) ''uint128'' defs = Inr (UintType (Fin 1) (Fin 16))"
  by (simp add: typeClass_uint128 Uint_def parseInt_128 jdiv_def)

lemma parseType_bool:
  "parseType (Suc fuel) ''bool'' defs = Inr (BoolType (Fin 1) (Fin 1))"
  by (simp add: typeClass_bool Bool_def)

lemmas regex_eval = tailOk_def qualifiers_def dot_def

lemma floor_rat_numeral [simp]:
  "\<lfloor>numeral a / numeral b :: rat\<rfloor> = numeral a div numeral b"
  using floor_divide_of_int_eq [of "numeral a" "numeral b", where ?'a = rat] by simp

lemma ceiling_rat_numeral [simp]:
  "\<lceil>numeral a / numeral b :: rat\<rceil> = - (- numeral a div numeral b)"
  using floor_divide_of_int_eq [of "- numeral a" "numeral b", where ?'a = rat]
  by (simp add: ceiling_def)

subsection \<open>The bare keywords uint and int\<close>

text \<open>
  Claim C8. Resolving the bare keyword \<open>uint\<close>, and likewise \<open>int\<close>, expands no alias
  to a width of 256 bits: the conditional expression at the head of the builder changes
  nothing, the number parser sees the empty string, and the descriptor returned has a
  \<open>storageBytes\<close> that is not a number, where \<open>uint256\<close> and \<open>int256\<close> give 32.
\<close>

theorem bare_uint_int_not_a_number:
  "parseType (Suc fuel) ''uint'' defs = Inr (UintType (Fin 1) NaN)
   \<and> parseType (Suc fuel) ''int'' defs = Inr (IntType (Fin 1) NaN)
   \<and> parseType (Suc fuel) ''uint256'' defs = Inr (UintType (Fin 1) (Fin 32))
   \<and> Uint ''uint'' \<noteq> Uint ''uint256''
   \<and> Int_builder ''int'' \<noteq> Int_builder ''int256''"
  by (simp add: typeClass_uint typeClass_int typeClass_uint256 Uint_def Int_builder_def
      parseInt_empty parseInt_256 jdiv_def)

subsection \<open>A class outside the dispatch table\<close>

text \<open>
  Claim C3 says that a type string whose class is none of the ten known ones makes the
  entry point return a failure instead of crashing. The source tests the class against
  \<open>null\<close>, which the classifier never returns, and then calls the entry of the table:
  for a class that is no key of the table (and no name inherited by it) the entry is
  \<open>undefined\<close> and the call throws, as for the string of a mapping.
\<close>

theorem unrecognized_category_throws:
  assumes "typeClass t \<notin> set (map fst (decodeInfos (parseType fuel)))"
    and "typeClass t \<notin> set inheritedKeys"
  shows "parseType (Suc fuel) t defs = Inl TypeError"
  using assms by (simp add: decodeInfos_def)

theorem unrecognized_category_throws_witness:
  "typeClass ''mapping(address => uint256)'' = ''mapping(address''
   \<and> parseType (Suc 0) ''mapping(address => uint256)'' [] = Inl TypeError"
  using unrecognized_category_throws [of "''mapping(address => uint256)''" 0 "[]"]
  by (simp add: typeClass_mapping decodeInfos_def inheritedKeys_def del: parseType_eqs)

subsection \<open>The entry point on the composite classes\<close>

lemma parseType_enum:
  "typeClass t = ''enum'' \<Longrightarrow> parseType (Suc fuel) t defs = Enum t defs"
  by simp

lemma parseType_array:
  "typeClass t = ''array'' \<Longrightarrow> parseType (Suc fuel) t defs = Array (parseType fuel) t defs"
  by simp

lemma parseType_struct:
  "typeClass t = ''struct'' \<Longrightarrow> parseType (Suc fuel) t defs = Struct (parseType fuel) t defs"
  by simp

subsection \<open>The patterns on strings of the usual shape\<close>

text \<open>
  On a type string \<open>element[size]qualifier\<close> the pattern of the array builder returns the
  element and the size token, and on \<open>struct Name qualifier\<close> the pattern of the struct
  builder returns the name: the theorems below that assume what a pattern returns apply
  to the strings the compiler writes.
\<close>

lemma tailOk_cases:
  "tailOk q \<Longrightarrow> q = [] \<or> q = '' storage ref'' \<or> q = '' storage pointer''
     \<or> q = '' memory'' \<or> q = '' calldata''"
  unfolding tailOk_def qualifiers_def by simp

lemma tailOk_no_bracket: "tailOk q \<Longrightarrow> CHR ''['' \<notin> set q \<and> CHR '']'' \<notin> set q"
  by (drule tailOk_cases) (elim disjE; simp)

lemma tailOk_space: "tailOk (c # r) \<Longrightarrow> c = CHR '' ''"
  by (drule tailOk_cases) (elim disjE; simp)

lemma lazyBracket_shape:
  "list_all (\<lambda>c. c \<noteq> CHR '']'' \<and> dot c) sz \<Longrightarrow> tailOk q \<Longrightarrow>
   lazyBracket acc (sz @ CHR '']'' # q) = Some (rev acc @ sz)"
  by (induction sz arbitrary: acc) simp_all

lemma arrayAt_no_bracket: "CHR ''['' \<notin> set s \<Longrightarrow> arrayAt acc s = None"
  by (induction s arbitrary: acc) auto

lemma arrayAt_shape:
  assumes "list_all dot el"
    and "list_all (\<lambda>c. c \<noteq> CHR ''['' \<and> c \<noteq> CHR '']'' \<and> dot c) sz"
    and "tailOk q"
  shows "arrayAt acc (el @ CHR ''['' # sz @ CHR '']'' # q) = Some (rev acc @ el, sz)"
  using assms(1)
proof (induction el arbitrary: acc)
  case Nil
  have "CHR ''['' \<notin> set q" using assms(3) tailOk_no_bracket by blast
  then have "CHR ''['' \<notin> set (sz @ CHR '']'' # q)" using assms(2) by (auto simp: list_all_iff)
  then have none: "arrayAt (CHR ''['' # acc) (sz @ CHR '']'' # q) = None"
    by (rule arrayAt_no_bracket)
  have "list_all (\<lambda>c. c \<noteq> CHR '']'' \<and> dot c) sz" using assms(2) by (auto simp: list_all_iff)
  then have some: "lazyBracket [] (sz @ CHR '']'' # q) = Some (rev [] @ sz)"
    using assms(3) by (rule lazyBracket_shape)
  show ?case using none some by simp
next
  case (Cons c el)
  from Cons.prems have c: "dot c" and el: "list_all dot el" by simp_all
  have "arrayAt (c # acc) (el @ CHR ''['' # sz @ CHR '']'' # q) = Some (rev (c # acc) @ el, sz)"
    using el by (rule Cons.IH)
  then show ?case using c by simp
qed

lemma arrayMatch_shape:
  assumes "list_all dot el"
    and "list_all (\<lambda>c. c \<noteq> CHR ''['' \<and> c \<noteq> CHR '']'' \<and> dot c) sz"
    and "tailOk q"
  shows "arrayMatch (el @ CHR ''['' # sz @ CHR '']'' # q) = Some (el, sz)"
proof -
  have at: "arrayAt [] (el @ CHR ''['' # sz @ CHR '']'' # q) = Some (rev [] @ el, sz)"
    using assms by (rule arrayAt_shape)
  obtain c cs where "el @ CHR ''['' # sz @ CHR '']'' # q = c # cs"
    by (cases "el @ CHR ''['' # sz @ CHR '']'' # q") simp_all
  with at show ?thesis by (simp del: arrayAt.simps)
qed

lemma plainName_Cons:
  "plainName (c # n) \<Longrightarrow> c \<noteq> CHR '' '' \<and> c \<noteq> CHR '']'' \<and> dot c \<and> plainName n"
  by (simp add: plainName_def)

lemma lazyTail_shape:
  "plainName n \<Longrightarrow> tailOk q \<Longrightarrow> lazyTail acc (n @ q) = Some (rev acc @ n)"
proof (induction n arbitrary: acc)
  case Nil
  then show ?case by (cases q) simp_all
next
  case (Cons c n)
  from plainName_Cons [OF Cons.prems(1)]
  have c: "c \<noteq> CHR '' ''" "dot c" and n: "plainName n" by simp_all
  have "\<not> tailOk (c # (n @ q))" using c(1) tailOk_space by blast
  moreover have "lazyTail (c # acc) (n @ q) = Some (rev (c # acc) @ n)"
    using n Cons.prems(2) by (rule Cons.IH)
  ultimately show ?case using c(2) by simp
qed

lemma structMatch_shape:
  assumes "plainName n" and "tailOk q"
  shows "structMatch (''struct '' @ n @ q) = Some n"
proof -
  have "lazyTail [] (n @ q) = Some (rev [] @ n)" using assms by (rule lazyTail_shape)
  then show ?thesis by simp
qed

lemma typeClass_struct_shape:
  assumes "plainName n" and "tailOk q"
  shows "typeClass (''struct '' @ n @ q) = ''struct''"
proof -
  have "CHR '']'' \<notin> set q" using assms(2) tailOk_no_bracket by blast
  moreover have "CHR '']'' \<notin> set n" using assms(1) by (auto simp: plainName_def list_all_iff)
  ultimately have "typeClass (''struct '' @ n @ q) = replaceDigitRuns '''' ''struct''"
    by (simp add: typeClass_def)
  then show ?thesis by (simp add: isDigit_def)
qed

subsection \<open>A struct that is not declared\<close>

lemma structLoop_skipped:
  "list_all (structSkipped n) ds \<Longrightarrow> structLoop rec n defs ds = Inr ([], Fin 0)"
  by (induction ds) (auto simp: structSkipped_def split: option.splits)

text \<open>
  Claim C1 says that resolving \<open>struct Name\<close> fails when the table declares no struct of
  that name. The source falls through the loop of \<open>getStructMembers\<close> and returns the
  empty list of members with 0 bytes, which is not \<open>null\<close>: the caller gets a struct
  descriptor with no member and no slot, for every name and every qualifier.
\<close>

theorem undeclared_struct_returns_descriptor:
  assumes "plainName n" and "tailOk q"
    and "list_all (structSkipped n) defs"
  shows "parseType (Suc fuel) (''struct '' @ n @ q) defs = Inr (StructType (Fin 0) (Fin 32) [])"
proof -
  have "typeClass (''struct '' @ n @ q) = ''struct''"
    using assms(1,2) by (rule typeClass_struct_shape)
  then have "parseType (Suc fuel) (''struct '' @ n @ q) defs
      = Struct (parseType fuel) (''struct '' @ n @ q) defs"
    by (rule parseType_struct)
  moreover have "structMatch (''struct '' @ n @ q) = Some n"
    using assms(1,2) by (rule structMatch_shape)
  ultimately show ?thesis
    using assms(3)
    by (simp add: Struct_def getStructMembers_def structLoop_skipped jdiv_def zeroOf_def
        del: structMatch.simps)
qed

theorem undeclared_struct_returns_descriptor_witness:
  "parseType (Suc 0) ''struct Foo'' [] = Inr (StructType (Fin 0) (Fin 32) [])
   \<and> parseType (Suc 0) ''struct Foo storage ref'' [structDef ''Bar'' [member ''a'' ''bool'']]
     = Inr (StructType (Fin 0) (Fin 32) [])"
  using undeclared_struct_returns_descriptor [of "''Foo''" "[]" "[]" 0]
    undeclared_struct_returns_descriptor
      [of "''Foo''" "'' storage ref''" "[structDef ''Bar'' [member ''a'' ''bool'']]" 0]
  by (simp add: plainName_def regex_eval structSkipped_def del: parseType_eqs)

subsection \<open>Brackets in the classifier\<close>

text \<open>
  Claim C9 says that every type string with the character \<open>[\<close> is classified as an
  array. The classifier looks for \<open>]\<close>, not for \<open>[\<close>: the string \<open>uint[\<close> has the one
  and not the other, and its class is the string itself.
\<close>

theorem typeClass_open_bracket_counterexample:
  "CHR ''['' \<in> set ''uint['' \<and> typeClass ''uint['' = ''uint[''
   \<and> typeClass ''uint['' \<noteq> ''array''"
  by (simp add: typeClass_def isDigit_def)

text \<open>
  Claim C9, amended: every type string with the character \<open>]\<close> is classified as an
  array, whatever else it holds; the prefix of a struct or an enum makes no difference.
\<close>

theorem typeClass_closing_bracket:
  "CHR '']'' \<in> set t \<Longrightarrow> typeClass t = ''array''"
  by (simp add: typeClass_def)

theorem typeClass_closing_bracket_witness:
  "CHR '']'' \<in> set ''struct Foo[2] storage ref''
   \<and> typeClass ''struct Foo[2] storage ref'' = ''array''"
  using typeClass_closing_bracket [of "''struct Foo[2] storage ref''"]
  by simp

subsection \<open>The byte width of an enum\<close>

lemma enumLoop_ge: "c \<le> enumLoop x c"
proof (induction x c rule: enumLoop.induct)
  case (1 len bytes)
  show ?case
  proof (cases "1 < len")
    case True
    with 1 have "bytes + 1 \<le> enumLoop (len / 256) (bytes + 1)" by simp
    then show ?thesis using True by (subst enumLoop.simps) simp
  next
    case False
    then show ?thesis by (subst enumLoop.simps) simp
  qed
qed

lemma enumLoop_upper: "x \<le> 256 ^ (enumLoop x c - c)"
proof (induction x c rule: enumLoop.induct)
  case (1 len bytes)
  show ?case
  proof (cases "1 < len")
    case True
    let ?E = "enumLoop (len / 256) (bytes + 1)"
    have E: "enumLoop len bytes = ?E" using True by (subst enumLoop.simps) simp
    have ge: "bytes + 1 \<le> ?E" by (rule enumLoop_ge)
    have ih: "len / 256 \<le> 256 ^ (?E - (bytes + 1))" using 1 True by simp
    have "?E - bytes = Suc (?E - (bytes + 1))" using ge by simp
    then have "(256::rat) ^ (?E - bytes) = 256 * 256 ^ (?E - (bytes + 1))" by simp
    then show ?thesis using ih E by simp
  next
    case False
    then show ?thesis by (subst enumLoop.simps) simp
  qed
qed

lemma enumLoop_lower: "c + j < enumLoop x c \<Longrightarrow> 256 ^ j < x"
proof (induction x c arbitrary: j rule: enumLoop.induct)
  case (1 len bytes)
  show ?case
  proof (cases "1 < len")
    case True
    let ?E = "enumLoop (len / 256) (bytes + 1)"
    have E: "enumLoop len bytes = ?E" using True by (subst enumLoop.simps) simp
    show ?thesis
    proof (cases j)
      case 0
      then show ?thesis using True by simp
    next
      case (Suc j')
      with "1.prems" E have "(bytes + 1) + j' < ?E" by simp
      with "1.IH" True have "256 ^ j' < len / 256" by blast
      then show ?thesis using Suc by simp
    qed
  next
    case False
    then have "enumLoop len bytes = bytes" by (subst enumLoop.simps) simp
    with "1.prems" show ?thesis by simp
  qed
qed

lemma enumLoop_3: "enumLoop 3 0 = 1"
  by (simp add: enumLoop.simps)
lemma enumLoop_300: "enumLoop 300 0 = 2"
  by (simp add: enumLoop.simps)
lemma enumLoop_1: "enumLoop 1 0 = 0"
  by (simp add: enumLoop.simps)

lemma getEnum_type: "getEnum t defs = Some dec \<Longrightarrow> \<exists>n. n \<noteq> [] \<and> t = ''enum '' @ n \<and> named n dec"
  by (induction defs) (auto simp: named_def split: option.splits if_splits)

lemma typeClass_enum: "CHR '']'' \<notin> set n \<Longrightarrow> typeClass (''enum '' @ n) = ''enum''"
  by (simp add: typeClass_def isDigit_def)

text \<open>
  Claim C6. For the declaration that the lookup of \<open>enum Name\<close> finds, the descriptor
  has one slot, and its \<open>storageBytes\<close> is the counter \<open>k\<close> of the loop that starts from
  the number of values and divides by 256 while the running value exceeds 1. The
  counter is the least \<open>k\<close> with at most \<open>256 ^ k\<close> values; 3 values give 1, 300 values
  give 2 and a single value gives 0.
\<close>

theorem enum_storageBytes:
  assumes "getEnum t defs = Some dec"
    and "CHR '']'' \<notin> set t"
    and "k = enumLoop (of_nat (length (children dec))) 0"
  shows "parseType (Suc fuel) t defs = Inr (EnumType (Fin 1) (Fin (of_nat k)) dec)
         \<and> length (children dec) \<le> 256 ^ k
         \<and> (\<forall>j<k. 256 ^ j < length (children dec))
         \<and> enumLoop 3 0 = 1 \<and> enumLoop 300 0 = 2 \<and> enumLoop 1 0 = 0"
proof -
  from assms(1) obtain n where n: "t = ''enum '' @ n" using getEnum_type by blast
  with assms(2) have "typeClass t = ''enum''" using typeClass_enum by simp
  then have "parseType (Suc fuel) t defs = Inr (EnumType (Fin 1) (Fin (of_nat k)) dec)"
    using assms(1,3) by (simp add: Enum_def)
  moreover have "length (children dec) \<le> 256 ^ k"
  proof -
    have "(of_nat (length (children dec)) :: rat) \<le> 256 ^ k"
      using enumLoop_upper [of "of_nat (length (children dec))" 0] assms(3) by simp
    then have "(of_nat (length (children dec)) :: rat) \<le> of_nat (256 ^ k)" by simp
    then show ?thesis by (simp only: of_nat_le_iff)
  qed
  moreover have "\<forall>j<k. 256 ^ j < length (children dec)"
  proof (intro allI impI)
    fix j assume "j < k"
    then have "(256::rat) ^ j < of_nat (length (children dec))"
      using enumLoop_lower [of 0 j "of_nat (length (children dec))"] assms(3) by simp
    then have "(of_nat (256 ^ j) :: rat) < of_nat (length (children dec))" by simp
    then show "256 ^ j < length (children dec)" by (simp only: of_nat_less_iff)
  qed
  ultimately show ?thesis using enumLoop_3 enumLoop_300 enumLoop_1 by simp
qed

theorem enum_storageBytes_witness:
  "parseType 1 ''enum E''
     [Node ''EnumDefinition'' (Some \<lparr>attrName = Some ''E'', attrType = None\<rparr>)
        [Node ''EnumValue'' None [], Node ''EnumValue'' None [], Node ''EnumValue'' None []]]
   = Inr (EnumType (Fin 1) (Fin 1)
       (Node ''EnumDefinition'' (Some \<lparr>attrName = Some ''E'', attrType = None\<rparr>)
        [Node ''EnumValue'' None [], Node ''EnumValue'' None [], Node ''EnumValue'' None []]))"
  using enum_storageBytes [of "''enum E''"
      "[Node ''EnumDefinition'' (Some \<lparr>attrName = Some ''E'', attrType = None\<rparr>)
        [Node ''EnumValue'' None [], Node ''EnumValue'' None [], Node ''EnumValue'' None []]]"
      "Node ''EnumDefinition'' (Some \<lparr>attrName = Some ''E'', attrType = None\<rparr>)
        [Node ''EnumValue'' None [], Node ''EnumValue'' None [], Node ''EnumValue'' None []]"
      1 0]
  by (simp add: enumLoop_3)

subsection \<open>The two lookups\<close>

lemma getEnum_first:
  "list_all (\<lambda>d. \<not> named n d) pre \<Longrightarrow> named n dec \<Longrightarrow> n \<noteq> [] \<Longrightarrow>
   getEnum (''enum '' @ n) (pre @ dec # post) = Some dec"
  by (induction pre) (auto simp: named_def split: option.splits)

lemma structLoop_filter:
  "structLoop rec m defs (filter (\<lambda>d. nodeName d = ''StructDefinition'') ds)
   = structLoop rec m defs ds"
  by (induction ds) (auto split: option.splits)

text \<open>
  Claim C10. The lookup of an enum does not test the kind of a declaration: resolving
  \<open>enum Name\<close> takes the first declaration of the table whose attributes carry that
  name, of whatever kind, and counts its children as the values. The lookup of a
  struct sees the declarations of kind \<open>StructDefinition\<close> only: the others may be
  removed from the table it scans without any change.
\<close>

theorem enum_lookup_ignores_kind:
  assumes "n \<noteq> []" and "CHR '']'' \<notin> set n"
    and "list_all (\<lambda>d. \<not> named n d) pre" and "named n dec"
  shows "parseType (Suc fuel) (''enum '' @ n) (pre @ dec # post)
           = Inr (EnumType (Fin 1)
                (Fin (of_nat (enumLoop (of_nat (length (children dec))) 0))) dec)
         \<and> getStructMembers rec m defs
           = structLoop rec m defs (filter (\<lambda>d. nodeName d = ''StructDefinition'') defs)"
proof -
  have "typeClass (''enum '' @ n) = ''enum''"
    using assms(2) by (rule typeClass_enum)
  then have "parseType (Suc fuel) (''enum '' @ n) (pre @ dec # post)
      = Enum (''enum '' @ n) (pre @ dec # post)"
    by (rule parseType_enum)
  moreover have "getEnum (''enum '' @ n) (pre @ dec # post) = Some dec"
    using assms(3,4,1) by (rule getEnum_first)
  ultimately show ?thesis
    by (simp add: Enum_def getStructMembers_def structLoop_filter)
qed


theorem enum_lookup_ignores_kind_witness:
  "parseType 1 ''enum S''
     [Node ''StructDefinition'' (Some \<lparr>attrName = Some ''S'', attrType = None\<rparr>)
        [Node ''VariableDeclaration'' None [], Node ''VariableDeclaration'' None [],
         Node ''VariableDeclaration'' None []]]
   = Inr (EnumType (Fin 1) (Fin 1)
       (Node ''StructDefinition'' (Some \<lparr>attrName = Some ''S'', attrType = None\<rparr>)
        [Node ''VariableDeclaration'' None [], Node ''VariableDeclaration'' None [],
         Node ''VariableDeclaration'' None []]))
   \<and> getStructMembers (parseType 0) ''E''
       [Node ''EnumDefinition'' (Some \<lparr>attrName = Some ''E'', attrType = None\<rparr>) []]
     = Inr ([], Fin 0)"
  using enum_lookup_ignores_kind [of "''S''" "[]"
      "Node ''StructDefinition'' (Some \<lparr>attrName = Some ''S'', attrType = None\<rparr>)
        [Node ''VariableDeclaration'' None [], Node ''VariableDeclaration'' None [],
         Node ''VariableDeclaration'' None []]"
      0 "[]" "parseType 0" "''E''"
      "[Node ''EnumDefinition'' (Some \<lparr>attrName = Some ''E'', attrType = None\<rparr>) []]"]
  by (simp add: named_def enumLoop_3)

subsection \<open>The slots of an array\<close>
















subsection \<open>The members of a struct\<close>

lemma memberLoop_success:
  "list_all2 (resolvesTo rec defs) ms ds \<Longrightarrow>
   memberLoop rec defs ms (acc, b) = Inr (acc @ ds, foldl jadd b (map storageBytes ds))"
proof (induction ms ds arbitrary: acc b rule: list_all2_induct)
  case Nil
  then show ?case by simp
next
  case (Cons m ms d ds)
  from Cons.hyps(1) obtain a ty where "attributes m = Some a" "attrType a = Some ty"
    "rec ty defs = Inr d"
    by (auto simp: resolvesTo_def split: option.splits)
  then show ?case using Cons.IH [of "acc @ [d]" "jadd b (storageBytes d)"] by simp
qed

lemma memberLoop_failure:
  "list_all2 (resolvesTo rec defs) good ds \<Longrightarrow> failsWith rec defs bad e \<Longrightarrow>
   memberLoop rec defs (good @ bad # rest) (acc, b) = Inl e"
proof (induction good ds arbitrary: acc b rule: list_all2_induct)
  case Nil
  then show ?case by (auto simp: failsWith_def split: option.splits)
next
  case (Cons m ms d ds)
  from Cons.hyps(1) obtain a ty where "attributes m = Some a" "attrType a = Some ty"
    "rec ty defs = Inr d"
    by (auto simp: resolvesTo_def split: option.splits)
  then show ?case using Cons.IH [OF Cons.prems, of "acc @ [d]" "jadd b (storageBytes d)"] by simp
qed

lemma memberLoop_Inr:
  "memberLoop rec defs ms (acc, b) = Inr (out, b') \<Longrightarrow>
   \<exists>ds. out = acc @ ds \<and> list_all2 (resolvesTo rec defs) ms ds
        \<and> b' = foldl jadd b (map storageBytes ds)"
proof (induction ms arbitrary: acc b)
  case Nil
  then show ?case by simp
next
  case (Cons m ms)
  from Cons.prems obtain a ty d where m: "attributes m = Some a" "attrType a = Some ty"
    "rec ty defs = Inr d"
    and rest: "memberLoop rec defs ms (acc @ [d], jadd b (storageBytes d)) = Inr (out, b')"
    by (auto split: option.splits sum.splits)
  from Cons.IH [OF rest] obtain ds where ds: "out = (acc @ [d]) @ ds"
    "list_all2 (resolvesTo rec defs) ms ds"
    "b' = foldl jadd (jadd b (storageBytes d)) (map storageBytes ds)"
    by blast
  have "resolvesTo rec defs m d" using m by (simp add: resolvesTo_def)
  with ds have "out = acc @ (d # ds) \<and> list_all2 (resolvesTo rec defs) (m # ms) (d # ds)
      \<and> b' = foldl jadd b (map storageBytes (d # ds))"
    by simp
  then show ?case by blast
qed

lemma structLoop_found:
  "list_all (structSkipped n) pre \<Longrightarrow> structDeclared n dec \<Longrightarrow>
   structLoop rec n defs (pre @ dec # post) = memberLoop rec defs (children dec) ([], Fin 0)"
  by (induction pre) (auto simp: structSkipped_def structDeclared_def split: option.splits)

lemma Struct_found:
  assumes "structMatch t = Some n" and "defs = pre @ dec # post"
    and "list_all (structSkipped n) pre" and "structDeclared n dec"
  shows "Struct rec t defs =
     (case memberLoop rec defs (children dec) ([], Fin 0) of
        Inl e \<Rightarrow> Inl e
      | Inr (mems, bytes) \<Rightarrow> Inr (StructType (jceil (jdiv bytes (Fin 32))) (Fin 32) mems))"
  using assms by (simp add: Struct_def getStructMembers_def structLoop_found)

lemma typeClass_struct_S: "typeClass ''struct S'' = ''struct''"
  by (simp add: typeClass_def isDigit_def)

lemma structMatch_S: "structMatch ''struct S'' = Some ''S''"
  by (simp add: regex_eval)

lemma structDeclared_structDef: "structDeclared n (structDef n ms)"
  by (simp add: structDeclared_def)

lemma resolvesTo_member:
  "rec t defs = Inr d \<Longrightarrow> resolvesTo rec defs (member n t) d"
  by (simp add: resolvesTo_def)

text \<open>
  Claim C5. For the declaration of the struct that the lookup finds, when every member
  resolves, the struct resolves to a descriptor of 32 bytes that holds the members'
  descriptors in the order of the declaration, and its slots are the ceiling of a 32nd
  of the sum of the members' \<open>storageBytes\<close> (their \<open>storageSlots\<close> play no part): two
  members of 16 bytes give 1 slot, three give 2.
\<close>

theorem struct_slots_from_member_bytes:
  assumes "typeClass t = ''struct''" and "structMatch t = Some n"
    and "defs = pre @ dec # post"
    and "list_all (structSkipped n) pre" and "structDeclared n dec"
    and "list_all2 (resolvesTo (parseType fuel) defs) (children dec) ds"
  shows "parseType (Suc fuel) t defs =
     Inr (StructType (jceil (jdiv (foldl jadd (Fin 0) (map storageBytes ds)) (Fin 32)))
            (Fin 32) ds)"
proof -
  have "parseType (Suc fuel) t defs = Struct (parseType fuel) t defs"
    using assms(1) by (rule parseType_struct)
  also have "\<dots> = (case memberLoop (parseType fuel) defs (children dec) ([], Fin 0) of
        Inl e \<Rightarrow> Inl e
      | Inr (mems, bytes) \<Rightarrow> Inr (StructType (jceil (jdiv bytes (Fin 32))) (Fin 32) mems))"
    using assms(2-5) by (rule Struct_found)
  also have "memberLoop (parseType fuel) defs (children dec) ([], Fin 0)
      = Inr ([] @ ds, foldl jadd (Fin 0) (map storageBytes ds))"
    using assms(6) by (rule memberLoop_success)
  finally show ?thesis by simp
qed

theorem struct_slots_from_member_bytes_witness:
  "parseType (Suc (Suc 0)) ''struct S''
     [structDef ''S'' [member ''a'' ''uint128'', member ''b'' ''uint128'']]
   = Inr (StructType (Fin 1) (Fin 32) [UintType (Fin 1) (Fin 16), UintType (Fin 1) (Fin 16)])
   \<and> parseType (Suc (Suc 0)) ''struct S''
     [structDef ''S'' [member ''a'' ''uint128'', member ''b'' ''uint128'', member ''c'' ''uint128'']]
   = Inr (StructType (Fin 2) (Fin 32)
       [UintType (Fin 1) (Fin 16), UintType (Fin 1) (Fin 16), UintType (Fin 1) (Fin 16)])"
proof -
  have two: "list_all2
      (resolvesTo (parseType (Suc 0))
         ([] @ structDef ''S'' [member ''a'' ''uint128'', member ''b'' ''uint128''] # []))
      (children (structDef ''S'' [member ''a'' ''uint128'', member ''b'' ''uint128'']))
      [UintType (Fin 1) (Fin 16), UintType (Fin 1) (Fin 16)]"
    by (simp add: resolvesTo_member parseType_uint128 del: parseType_eqs)
  have three: "list_all2
      (resolvesTo (parseType (Suc 0))
         ([] @ structDef ''S''
            [member ''a'' ''uint128'', member ''b'' ''uint128'', member ''c'' ''uint128''] # []))
      (children (structDef ''S''
            [member ''a'' ''uint128'', member ''b'' ''uint128'', member ''c'' ''uint128'']))
      [UintType (Fin 1) (Fin 16), UintType (Fin 1) (Fin 16), UintType (Fin 1) (Fin 16)]"
    by (simp add: resolvesTo_member parseType_uint128 del: parseType_eqs)
  show ?thesis
    using struct_slots_from_member_bytes
        [OF typeClass_struct_S structMatch_S refl _ structDeclared_structDef two]
      struct_slots_from_member_bytes
        [OF typeClass_struct_S structMatch_S refl _ structDeclared_structDef three]
    by (simp add: jadd_def jdiv_def del: parseType_eqs)
qed

lemma typeClass_enum_Nope: "typeClass ''enum Nope'' = ''enum''"
  by (simp add: typeClass_def isDigit_def)

text \<open>
  Claim C7. For the declaration of the struct that the lookup finds: when the members
  before some member resolve and that member fails, the whole resolution fails with
  the failure of that member (\<open>null\<close> for \<open>null\<close>); and a descriptor that is returned
  holds one member descriptor for each member declaration, in the order of the
  declaration, each the resolution of its declaration. No shorter list is returned.
\<close>

theorem struct_member_failure_aborts:
  assumes "typeClass t = ''struct''" and "structMatch t = Some n"
    and "defs = pre @ dec # post"
    and "list_all (structSkipped n) pre" and "structDeclared n dec"
  shows "(children dec = good @ bad # rest
            \<and> list_all2 (resolvesTo (parseType fuel) defs) good ds
            \<and> failsWith (parseType fuel) defs bad e
          \<longrightarrow> parseType (Suc fuel) t defs = Inl e)
       \<and> (parseType (Suc fuel) t defs = Inr d
          \<longrightarrow> (\<exists>slots ms. d = StructType slots (Fin 32) ms
                \<and> list_all2 (resolvesTo (parseType fuel) defs) (children dec) ms))"
proof -
  have eq: "parseType (Suc fuel) t defs =
     (case memberLoop (parseType fuel) defs (children dec) ([], Fin 0) of
        Inl e \<Rightarrow> Inl e
      | Inr (mems, bytes) \<Rightarrow> Inr (StructType (jceil (jdiv bytes (Fin 32))) (Fin 32) mems))"
    using parseType_struct [OF assms(1)] Struct_found [OF assms(2-5)] by simp
  have "parseType (Suc fuel) t defs = Inl e"
    if "children dec = good @ bad # rest"
      and "list_all2 (resolvesTo (parseType fuel) defs) good ds"
      and "failsWith (parseType fuel) defs bad e"
    using eq that memberLoop_failure [OF that(2,3), of rest "[]" "Fin 0"] by simp
  moreover have "\<exists>slots ms. d = StructType slots (Fin 32) ms
        \<and> list_all2 (resolvesTo (parseType fuel) defs) (children dec) ms"
    if "parseType (Suc fuel) t defs = Inr d"
  proof -
    from that eq obtain mems bytes where
      ok: "memberLoop (parseType fuel) defs (children dec) ([], Fin 0) = Inr (mems, bytes)"
      and d: "d = StructType (jceil (jdiv bytes (Fin 32))) (Fin 32) mems"
      by (auto split: sum.splits)
    from memberLoop_Inr [OF ok] have "list_all2 (resolvesTo (parseType fuel) defs) (children dec) mems"
      by simp
    with d show ?thesis by blast
  qed
  ultimately show ?thesis by blast
qed

theorem struct_member_failure_aborts_witness:
  "parseType (Suc (Suc 0)) ''struct S''
     [structDef ''S'' [member ''a'' ''uint128'', member ''b'' ''enum Nope'', member ''c'' ''uint128'']]
   = Inl Null"
proof -
  let ?defs = "[structDef ''S''
      [member ''a'' ''uint128'', member ''b'' ''enum Nope'', member ''c'' ''uint128'']]"
  have good: "list_all2 (resolvesTo (parseType (Suc 0)) ([] @ hd ?defs # []))
      [member ''a'' ''uint128''] [UintType (Fin 1) (Fin 16)]"
    by (simp add: resolvesTo_member parseType_uint128 del: parseType_eqs)
  have bad: "failsWith (parseType (Suc 0)) ([] @ hd ?defs # []) (member ''b'' ''enum Nope'') Null"
    by (simp add: failsWith_def typeClass_enum_Nope Enum_def)
  show ?thesis
    using struct_member_failure_aborts
        [OF typeClass_struct_S structMatch_S refl _ structDeclared_structDef,
         where pre = "[]" and post = "[]" and good = "[member ''a'' ''uint128'']"
           and bad = "member ''b'' ''enum Nope''" and rest = "[member ''c'' ''uint128'']"
           and fuel = "Suc 0" and ds = "[UintType (Fin 1) (Fin 16)]" and e = Null]
      good bad
    by (simp del: parseType_eqs)
qed

subsection \<open>More fuel changes no result\<close>

text \<open>
  A result other than running out of fuel is the result for every larger amount of
  fuel: it is the result of the source, whose recursion is as deep as the type is nested.
\<close>

lemma agreesD: "agrees rec rec' defs \<Longrightarrow> rec t defs = r \<Longrightarrow> r \<noteq> Inl OutOfFuel \<Longrightarrow> rec' t defs = r"
  by (simp add: agrees_def)


lemma memberLoop_stable:
  assumes st: "agrees rec rec' defs"
  shows "memberLoop rec defs ms acc = r \<Longrightarrow> r \<noteq> Inl OutOfFuel \<Longrightarrow>
         memberLoop rec' defs ms acc = r"
proof (induction ms arbitrary: acc)
  case Nil
  then show ?case by (cases acc) simp
next
  case (Cons m ms)
  obtain mems bytes where acc: "acc = (mems, bytes)" by (cases acc)
  show ?case
  proof (cases "attributes m")
    case None
    with Cons.prems acc show ?thesis by simp
  next
    case (Some a)
    show ?thesis
    proof (cases "attrType a")
      case None
      with Cons.prems acc Some show ?thesis by simp
    next
      case (Some ty)
      show ?thesis
      proof (cases "rec ty defs")
        case (Inl e)
        with Cons.prems acc \<open>attributes m = Some a\<close> Some have "r = Inl e" by simp
        with Cons.prems(2) Inl have "rec' ty defs = Inl e" using agreesD [OF st] by blast
        with \<open>r = Inl e\<close> acc \<open>attributes m = Some a\<close> Some show ?thesis by simp
      next
        case (Inr d)
        then have "rec' ty defs = Inr d" using agreesD [OF st] by blast
        moreover have "memberLoop rec defs ms (mems @ [d], jadd bytes (storageBytes d)) = r"
          using Cons.prems(1) acc \<open>attributes m = Some a\<close> Some Inr by simp
        ultimately show ?thesis
          using Cons.IH [OF _ Cons.prems(2)] acc \<open>attributes m = Some a\<close> Some
          by (simp del: parseType_eqs)
      qed
    qed
  qed
qed

lemma structLoop_stable:
  assumes st: "agrees rec rec' defs"
  shows "structLoop rec n defs ds = r \<Longrightarrow> r \<noteq> Inl OutOfFuel \<Longrightarrow>
         structLoop rec' n defs ds = r"
proof (induction ds)
  case Nil
  then show ?case by simp
next
  case (Cons dec ds)
  show ?case
  proof (cases "structDeclared n dec")
    case True
    then have "structLoop rec n defs (dec # ds) = memberLoop rec defs (children dec) ([], Fin 0)"
      and "structLoop rec' n defs (dec # ds) = memberLoop rec' defs (children dec) ([], Fin 0)"
      by (auto simp: structDeclared_def split: option.splits)
    with Cons.prems memberLoop_stable [OF st] show ?thesis by simp
  next
    case False
    then have "structLoop rec n defs (dec # ds) = Inl TypeError
        \<and> structLoop rec' n defs (dec # ds) = Inl TypeError
      \<or> structLoop rec n defs (dec # ds) = structLoop rec n defs ds
        \<and> structLoop rec' n defs (dec # ds) = structLoop rec' n defs ds"
      by (auto simp: structDeclared_def split: option.splits)
    with Cons show ?thesis by auto
  qed
qed

lemma Array_stable:
  assumes st: "agrees rec rec' defs"
    and "Array rec t defs = r" and "r \<noteq> Inl OutOfFuel"
  shows "Array rec' t defs = r"
proof (cases "arrayMatch t")
  case None
  with assms(2) show ?thesis by (simp add: Array_def)
next
  case (Some m)
  obtain m1 m2 where m: "m = (m1, m2)" by (cases m)
  show ?thesis
  proof (cases "rec m1 defs")
    case (Inl e)
    with assms(2) Some m have "r = Inl e" by (simp add: Array_def)
    with assms(3) Inl have "rec' m1 defs = Inl e" using agreesD [OF st] by blast
    with \<open>r = Inl e\<close> Some m show ?thesis by (simp add: Array_def)
  next
    case (Inr d)
    then have "rec' m1 defs = Inr d" using agreesD [OF st] by blast
    with assms(2) Some m Inr show ?thesis by (simp add: Array_def)
  qed
qed

lemma Struct_stable:
  assumes st: "agrees rec rec' defs"
    and "Struct rec t defs = r" and "r \<noteq> Inl OutOfFuel"
  shows "Struct rec' t defs = r"
proof (cases "structMatch t")
  case None
  with assms(2) show ?thesis by (simp add: Struct_def)
next
  case (Some n)
  show ?thesis
  proof (cases "structLoop rec n defs defs")
    case (Inl e)
    with assms(2) Some have "r = Inl e" by (simp add: Struct_def getStructMembers_def)
    with assms(3) Inl have "structLoop rec' n defs defs = Inl e"
      using structLoop_stable [OF st] by blast
    with \<open>r = Inl e\<close> Some show ?thesis by (simp add: Struct_def getStructMembers_def)
  next
    case (Inr p)
    then have "structLoop rec' n defs defs = Inr p"
      using structLoop_stable [OF st] by blast
    with assms(2) Some Inr show ?thesis by (simp add: Struct_def getStructMembers_def)
  qed
qed

lemma parseType_Suc_stable:
  "parseType fuel t defs = r \<Longrightarrow> r \<noteq> Inl OutOfFuel \<Longrightarrow> parseType (Suc fuel) t defs = r"
proof (induction fuel arbitrary: t r)
  case 0
  then show ?case by simp
next
  case (Suc fuel)
  have st: "agrees (parseType fuel) (parseType (Suc fuel)) defs"
    unfolding agrees_def using Suc.IH by blast
  show ?case
  proof (cases "typeClass t = ''array''")
    case True
    then have "Array (parseType fuel) t defs = r" using Suc.prems(1) by simp
    then have "Array (parseType (Suc fuel)) t defs = r"
      using Array_stable [OF st] Suc.prems(2) by blast
    then show ?thesis using True parseType_array by simp
  next
    case False
    show ?thesis
    proof (cases "typeClass t = ''struct''")
      case True
      then have "Struct (parseType fuel) t defs = r" using Suc.prems(1) by simp
      then have "Struct (parseType (Suc fuel)) t defs = r"
        using Struct_stable [OF st] Suc.prems(2) by blast
      then show ?thesis using True parseType_struct by simp
    next
      case notStruct: False
      have "parseType (Suc (Suc fuel)) t defs = parseType (Suc fuel) t defs"
        using False notStruct by (simp add: Let_def)
      with Suc.prems(1) show ?thesis by simp
    qed
  qed
qed

lemma parseType_fuel_stable:
  "parseType fuel t defs = r \<Longrightarrow> r \<noteq> Inl OutOfFuel \<Longrightarrow> parseType (fuel + k) t defs = r"
proof (induction k)
  case 0
  then show ?case by simp
next
  case (Suc k)
  then have "parseType (fuel + k) t defs = r" by blast
  then have "parseType (Suc (fuel + k)) t defs = r"
    using Suc.prems(2) by (rule parseType_Suc_stable)
  then show ?case by (simp del: parseType_eqs)
qed


subsection \<open>The slots of a descriptor\<close>

lemma regular_positive: "regular d \<Longrightarrow> positive (storageBytes d)"
  by (cases d) auto

lemma allDescr_head: "allDescr P d \<Longrightarrow> P d"
  by (cases d) auto

lemma positive_Fin: "positive x \<Longrightarrow> \<exists>q. x = Fin q \<and> 0 < q"
  by (cases x) auto

lemma atLeastOne_Fin: "atLeastOne x \<Longrightarrow> \<exists>q. x = Fin q \<and> 1 \<le> q"
  by (cases x) auto

lemma jceil_positive: "0 < x \<Longrightarrow> atLeastOne (jceil (Fin x))"
proof -
  assume pos: "0 < x"
  then have "0 < \<lceil>x\<rceil>" by simp
  then have "(1::rat) \<le> of_int \<lceil>x\<rceil>" using of_int_1_le_iff [of "\<lceil>x\<rceil>", where ?'a = rat] by linarith
  with pos show ?thesis by simp
qed

lemma arraySlots_atLeastOne:
  assumes "atLeastOne n" and "positive (storageBytes e)" and "atLeastOne (storageSlots e)"
  shows "atLeastOne (arraySlots (Size n) e)"
proof -
  from assms obtain k q s where n: "n = Fin k" "1 \<le> k"
    and b: "storageBytes e = Fin q" "0 < q" and s: "storageSlots e = Fin s" "1 \<le> s"
    using atLeastOne_Fin positive_Fin by metis
  show ?thesis
  proof (cases "q < 32")
    case True
    have "1 \<le> 32 / q" using True b(2) by simp
    then have f: "1 \<le> \<lfloor>32 / q\<rfloor>" by (simp add: le_floor_iff)
    then have fpos: "(0::rat) < of_int \<lfloor>32 / q\<rfloor>" by simp
    have items: "jfloor (jdiv (Fin 32) (Fin q)) = Fin (of_int \<lfloor>32 / q\<rfloor>)"
      using b(2) by (simp add: jdiv_def)
    have "jdiv (Fin k) (Fin (of_int \<lfloor>32 / q\<rfloor>)) = Fin (k / of_int \<lfloor>32 / q\<rfloor>)"
    proof -
      have "\<lfloor>32 / q\<rfloor> \<noteq> 0" using f by linarith
      moreover have "k \<noteq> 0" using n(2) by simp
      ultimately show ?thesis by (simp add: jdiv_def)
    qed
    moreover have "0 < k / of_int \<lfloor>32 / q\<rfloor>" using n(2) fpos by simp
    ultimately have "atLeastOne (jceil (jdiv (Fin k) (Fin (of_int \<lfloor>32 / q\<rfloor>))))"
      using jceil_positive by simp
    then show ?thesis using True n b items by (simp add: arraySlots_def jlt_def)
  next
    case False
    have "1 * 1 \<le> k * s" using n(2) s(2) by (intro mult_mono) simp_all
    then have "atLeastOne (jmul (Fin k) (Fin s))" using n(2) s(2) by (simp add: jmul_def)
    then show ?thesis using False n b s by (simp add: arraySlots_def jlt_def)
  qed
qed

lemma sum_positive:
  "0 \<le> a \<Longrightarrow> list_all positive bs \<Longrightarrow>
   \<exists>q. foldl jadd (Fin a) bs = Fin q \<and> a \<le> q \<and> (bs \<noteq> [] \<longrightarrow> a < q)"
proof (induction bs arbitrary: a)
  case Nil
  then show ?case by simp
next
  case (Cons b bs)
  from Cons.prems obtain p where p: "b = Fin p" "0 < p" using positive_Fin by auto
  have step: "jadd (Fin a) b = Fin (a + p)" using p by (simp add: jadd_def)
  from Cons.prems p have "0 \<le> a + p" "list_all positive bs" by simp_all
  from Cons.IH [OF this] obtain q where "foldl jadd (Fin (a + p)) bs = Fin q" "a + p \<le> q"
    by blast
  then show ?case using step p(2) by auto
qed

lemma struct_slots_atLeastOne:
  assumes "ms \<noteq> []" and "list_all (\<lambda>m. positive (storageBytes m)) ms"
  shows "atLeastOne (jceil (jdiv (foldl jadd (Fin 0) (map storageBytes ms)) (Fin 32)))"
proof -
  have "list_all positive (map storageBytes ms)" using assms(2) by (simp add: list_all_iff)
  from sum_positive [OF order_refl this] assms(1)
  obtain q where q: "foldl jadd (Fin 0) (map storageBytes ms) = Fin q" "0 < q" by auto
  then have "jdiv (foldl jadd (Fin 0) (map storageBytes ms)) (Fin 32) = Fin (q / 32)"
    by (simp add: jdiv_def)
  moreover have "0 < q / 32" using q(2) by simp
  ultimately show ?thesis using jceil_positive by simp
qed

lemma consistent_regular:
  "consistent d \<Longrightarrow> allDescr regular d \<Longrightarrow> allDescr (\<lambda>x. atLeastOne (storageSlots x)) d"
proof (induction d)
  case (ArrayType s b sz e)
  then have e: "allDescr (\<lambda>x. atLeastOne (storageSlots x)) e" by simp
  then have es: "atLeastOne (storageSlots e)" by (rule allDescr_head)
  have eb: "positive (storageBytes e)"
    using ArrayType.prems(2) allDescr_head [of regular e] regular_positive by simp
  have "atLeastOne (arraySlots sz e)"
  proof (cases sz)
    case Dynamic
    then show ?thesis by (simp add: arraySlots_def)
  next
    case (Size n)
    with ArrayType.prems(2) have "atLeastOne n" by simp
    then show ?thesis using Size eb es arraySlots_atLeastOne by simp
  qed
  with ArrayType.prems(1) e show ?case by simp
next
  case (StructType s b ms)
  have each: "list_all (allDescr (\<lambda>x. atLeastOne (storageSlots x))) ms"
    using StructType by (auto simp: list_all_iff)
  have "list_all (\<lambda>m. positive (storageBytes m)) ms"
    using StructType.prems(2) allDescr_head [of regular] regular_positive
    by (auto simp: list_all_iff)
  moreover have "ms \<noteq> []" using StructType.prems(2) by simp
  ultimately have "atLeastOne (jceil (jdiv (foldl jadd (Fin 0) (map storageBytes ms)) (Fin 32)))"
    using struct_slots_atLeastOne by blast
  with StructType.prems(1) each show ?case by simp
qed simp_all

lemma structLoop_Inr:
  "structLoop rec n defs ds = Inr (mems, bytes) \<Longrightarrow>
   \<exists>ms. list_all2 (resolvesTo rec defs) ms mems
        \<and> bytes = foldl jadd (Fin 0) (map storageBytes mems)"
proof (induction ds)
  case Nil
  then show ?case by simp
next
  case (Cons dec ds)
  show ?case
  proof (cases "memberLoop rec defs (children dec) ([], Fin 0) = Inr (mems, bytes)")
    case True
    from memberLoop_Inr [OF True] show ?thesis by auto
  next
    case False
    with Cons.prems have "structLoop rec n defs ds = Inr (mems, bytes)"
      by (auto split: if_splits option.splits)
    then show ?thesis by (rule Cons.IH)
  qed
qed

lemma parseType_consistent: "parseType fuel t defs = Inr d \<Longrightarrow> consistent d"
proof (induction fuel arbitrary: t d)
  case 0
  then show ?case by simp
next
  case (Suc fuel)
  consider (array) "Array (parseType fuel) t defs = Inr d"
    | (struct) "Struct (parseType fuel) t defs = Inr d"
    | (enum) "Enum t defs = Inr d"
    | (scalar) "Address t = Inr d \<or> Bool t = Inr d \<or> DynamicByteArray t = Inr d
        \<or> FixedByteArray t = Inr d \<or> String_builder t = Inr d \<or> Int_builder t = Inr d
        \<or> Uint t = Inr d"
    using Suc.prems by (auto simp: Let_def split: if_splits)
  then show ?case
  proof cases
    case array
    then obtain m1 m2 e where "parseType fuel m1 defs = Inr e"
      and "d = ArrayType (arraySlots (if m2 = [] then Dynamic else Size (parseInt m2)) e)
             (Fin 32) (if m2 = [] then Dynamic else Size (parseInt m2)) e"
      by (auto simp: Array_def Let_def split: option.splits sum.splits)
    then show ?thesis using Suc.IH by simp
  next
    case struct
    then obtain n mems bytes where
      loop: "structLoop (parseType fuel) n defs defs = Inr (mems, bytes)"
      and d: "d = StructType (jceil (jdiv bytes (Fin 32))) (Fin 32) mems"
      by (auto simp: Struct_def getStructMembers_def split: option.splits sum.splits)
    from structLoop_Inr [OF loop] obtain ms where
      ms: "list_all2 (resolvesTo (parseType fuel) defs) ms mems"
      and bytes: "bytes = foldl jadd (Fin 0) (map storageBytes mems)"
      by blast
    have "consistent m" if "m \<in> set mems" for m
    proof -
      from that ms obtain decl where "resolvesTo (parseType fuel) defs decl m"
        by (auto simp: list_all2_conv_all_nth in_set_conv_nth)
      then obtain ty where "parseType fuel ty defs = Inr m"
        by (auto simp: resolvesTo_def split: option.splits)
      then show ?thesis by (rule Suc.IH)
    qed
    then have "list_all consistent mems" by (simp add: list_all_iff)
    with d bytes show ?thesis by simp
  next
    case enum
    then show ?thesis by (auto simp: Enum_def split: option.splits)
  next
    case scalar
    then show ?thesis
      by (auto simp: Address_def Bool_def DynamicByteArray_def FixedByteArray_def
          String_builder_def Int_builder_def Uint_def Let_def)
  qed
qed

lemma consistent_unsized: "consistent d \<Longrightarrow> \<not> sized d \<Longrightarrow> storageSlots d = Fin 1"
proof (cases d)
  case (ArrayType s b sz e)
  assume "consistent d" "\<not> sized d"
  with ArrayType show ?thesis by (cases sz) (simp_all add: arraySlots_def)
qed simp_all

text \<open>
  Claim C2 says that every descriptor returned, and every descriptor nested in it, has
  at least one slot, that a fixed array never has zero slots and that a struct has a
  member. The builders compute the slots and test nothing: a fixed array of size 0 has
  0 slots, and so has a fixed array of an enum with a single value, whose width is 0.
\<close>

theorem zero_slots_counterexample:
  "parseType (Suc (Suc 0)) ''uint256[0]'' []
     = Inr (ArrayType (Fin 0) (Fin 32) (Size (Fin 0)) (UintType (Fin 1) (Fin 32)))
   \<and> \<not> atLeastOne (storageSlots
          (ArrayType (Fin 0) (Fin 32) (Size (Fin 0)) (UintType (Fin 1) (Fin 32))))
   \<and> parseType (Suc (Suc 0)) ''enum E[3]''
       [Node ''EnumDefinition'' (Some \<lparr>attrName = Some ''E'', attrType = None\<rparr>)
          [Node ''EnumValue'' None []]]
     = Inr (ArrayType (Fin 0) (Fin 32) (Size (Fin 3))
         (EnumType (Fin 1) (Fin 0)
           (Node ''EnumDefinition'' (Some \<lparr>attrName = Some ''E'', attrType = None\<rparr>)
              [Node ''EnumValue'' None []])))"
  by (simp add: typeClass_def isDigit_def Array_def regex_eval parseInt_0 parseInt_3
      arraySlots_def Uint_def Enum_def enumLoop_1 parseInt_256 jdiv_def jlt_def jmul_def
      zeroOf_def infOf_def)

text \<open>
  Claim C2, amended: a descriptor that is not a fixed array or a struct has exactly one
  slot; and when every descriptor in the result (the nested ones too) has a positive
  \<open>storageBytes\<close>, every fixed array in it a size of at least 1 and every struct in it
  at least one member, then every descriptor in the result has at least one slot.
\<close>

theorem regular_descriptors_have_slots:
  assumes "parseType fuel t defs = Inr d"
  shows "(allDescr regular d \<longrightarrow> allDescr (\<lambda>x. atLeastOne (storageSlots x)) d)
         \<and> (\<not> sized d \<longrightarrow> storageSlots d = Fin 1)"
  using parseType_consistent [OF assms] consistent_regular consistent_unsized by blast

theorem regular_descriptors_have_slots_witness:
  "parseType (Suc (Suc 0)) ''uint128[3]'' []
     = Inr (ArrayType (Fin 2) (Fin 32) (Size (Fin 3)) (UintType (Fin 1) (Fin 16)))
   \<and> allDescr regular (ArrayType (Fin 2) (Fin 32) (Size (Fin 3)) (UintType (Fin 1) (Fin 16)))
   \<and> allDescr (\<lambda>x. atLeastOne (storageSlots x))
        (ArrayType (Fin 2) (Fin 32) (Size (Fin 3)) (UintType (Fin 1) (Fin 16)))
   \<and> parseType (Suc 0) ''bool'' [] = Inr (BoolType (Fin 1) (Fin 1))
   \<and> \<not> sized (BoolType (Fin 1) (Fin 1))
   \<and> storageSlots (BoolType (Fin 1) (Fin 1)) = Fin 1"
proof -
  have run: "parseType (Suc (Suc 0)) ''uint128[3]'' []
     = Inr (ArrayType (Fin 2) (Fin 32) (Size (Fin 3)) (UintType (Fin 1) (Fin 16)))"
    by (simp add: typeClass_def isDigit_def Array_def regex_eval parseInt_3 arraySlots_def
      Uint_def parseInt_128 jdiv_def jlt_def)
  have reg: "allDescr regular
      (ArrayType (Fin 2) (Fin 32) (Size (Fin 3)) (UintType (Fin 1) (Fin 16)))"
    by simp
  have bool: "parseType (Suc 0) ''bool'' [] = Inr (BoolType (Fin 1) (Fin 1))"
    by (rule parseType_bool)
  from regular_descriptors_have_slots [OF run] regular_descriptors_have_slots [OF bool]
    run reg bool
  show ?thesis by (simp del: parseType_eqs)
qed

end
